theory Spec2Isabelle
  imports Main "HOL-Library.Sublist"
begin

section \<open>TimersJS: data model\<close>

text \<open>
  The module of \<^verbatim>\<open>src/timers.js\<close> keeps two private arrays, \<^verbatim>\<open>timerPool\<close> and
  \<^verbatim>\<open>callbacksPool\<close>, and a hierarchy of timer objects built with prototype
  inheritance. Objects are shared by reference (the pool holds the timers the callers
  hold), so timer objects live in an explicit store indexed by their address.
  The host's \<^verbatim>\<open>setTimeout\<close>/\<^verbatim>\<open>setInterval\<close> are modelled by a table of pending
  entries; time itself is not modelled: the host may fire any pending entry.
\<close>

type_synonym ref = nat
type_synonym handle = nat
type_synonym ufn = nat

text \<open>
  The method table an object resolves \<^verbatim>\<open>cancel\<close>, \<^verbatim>\<open>kill\<close> and \<^verbatim>\<open>restart\<close> through:
  \<^verbatim>\<open>AbstractTimer.prototype\<close> itself, or one of the five variants.
\<close>

datatype kind = AbstractK | TimerK | IntervalK | MultiK | OneShotK | TriggerK

text \<open>
  Function values. A caller-supplied function is identified by a tag (\<open>ufn\<close>);
  calling it is recorded in the trace, and what it then does to the module is given by
  its \<open>body\<close> (see \<open>call_user\<close>).
  \<open>TriggerCompletion sub cb\<close> is \<^verbatim>\<open>completionCallback\<close> of \<^verbatim>\<open>OneShotTrigger\<close> with its
  properties \<^verbatim>\<open>interval\<close> and \<^verbatim>\<open>intervalCompletionCallback\<close>;
  \<open>OneShotInner f\<close> is \<^verbatim>\<open>innerCallback\<close> of \<^verbatim>\<open>OneShotTimer\<close> with its property
  \<^verbatim>\<open>callbackFunction\<close>; \<open>MultiInternal c cb done\<close> is \<^verbatim>\<open>internalCallback\<close> of
  \<^verbatim>\<open>MultiTimer\<close> with \<^verbatim>\<open>callbackFunction\<close> and \<^verbatim>\<open>completionCallback\<close>, its two
  mutable counters being stored at address \<open>c\<close>. \<open>None\<close> is \<^verbatim>\<open>undefined\<close>.
\<close>

datatype inner_fn = UserI ufn | TriggerCompletion ref "ufn option"

datatype fn = User ufn | MultiInternal nat "ufn option" "ufn option" | OneShotInner "inner_fn option"

record multi_counters =
  repetitions :: int
  totalRepetitions :: int

text \<open>The indirection wrapper built by \<^verbatim>\<open>callback()\<close>, with its two properties.\<close>

datatype wrapper = Wrapper (timerCallback: "fn option") (timer_of: ref)

text \<open>What \<^verbatim>\<open>cleanupCallback\<close> is handed.\<close>

datatype retired = RUndefined | RNull | RWrapper wrapper | RFn fn | RInner inner_fn

record timer_obj =
  kind :: kind
  p_timer :: "handle option"
  p_interval :: "int option"
  p_callback :: "fn option"
  p_running :: bool
  p_paused :: bool
  p_timerFn :: "wrapper option"
  obj_id :: "nat option"

text \<open>
  \<^verbatim>\<open>AbstractTimer.prototype\<close> is an object too. \<^verbatim>\<open>Timer.base.cancel()\<close> and
  \<^verbatim>\<open>Timer.base.kill()\<close> run with it as \<^verbatim>\<open>this\<close> and write \<^verbatim>\<open>_timer\<close> and
  \<^verbatim>\<open>_running\<close> on it; it has no \<^verbatim>\<open>id\<close> and no \<^verbatim>\<open>_timerFn\<close>. The outer
  \<open>None\<close> is an absent property.
\<close>

record base_props =
  base_timer :: "handle option option"
  base_running :: "bool option"

datatype receiver = BasePrototype | Inst ref

datatype sched = Timeout | Interval

datatype host_fn = WrapperFn wrapper | SweepFn

record pending_entry =
  p_mode :: sched
  p_fn :: host_fn
  p_delay :: "int option"

text \<open>
  A call of a caller-supplied function: its tag, the receiver when it is a timer,
  the arguments, and the registry as the function finds it when it is called.
\<close>

datatype event = Call ufn "ref option" "int list" "ref list"

datatype outcome = Returned | TypeError

text \<open>
  What a caller-supplied function does besides its own business: the calls it makes on
  its receiver, \<^verbatim>\<open>this.restart()\<close>, \<^verbatim>\<open>this.kill()\<close>, \<^verbatim>\<open>this.cancel()\<close> and
  \<^verbatim>\<open>this.pause()\<close>, in the order it makes them.
\<close>

datatype action = ARestart | AKill | ACancel | APause

record state =
  timerPool :: "ref list"
  callbacksPool :: "retired list"
  store :: "ref \<Rightarrow> timer_obj"
  nextRef :: ref
  counters :: "nat \<Rightarrow> multi_counters"
  nextCounters :: nat
  base :: base_props
  pending :: "handle \<rightharpoonup> pending_entry"
  nextHandle :: handle
  trace :: "event list"
  body :: "ufn \<Rightarrow> action list"

section \<open>The host's scheduling primitives\<close>

definition setTimeout :: "host_fn \<Rightarrow> int option \<Rightarrow> state \<Rightarrow> handle \<times> state" where
  "setTimeout f d s =
     (nextHandle s,
      s\<lparr>pending := (pending s)(nextHandle s \<mapsto> \<lparr>p_mode = Timeout, p_fn = f, p_delay = d\<rparr>),
        nextHandle := Suc (nextHandle s)\<rparr>)"

definition setInterval :: "host_fn \<Rightarrow> int option \<Rightarrow> state \<Rightarrow> handle \<times> state" where
  "setInterval f d s =
     (nextHandle s,
      s\<lparr>pending := (pending s)(nextHandle s \<mapsto> \<lparr>p_mode = Interval, p_fn = f, p_delay = d\<rparr>),
        nextHandle := Suc (nextHandle s)\<rparr>)"

text \<open>Clearing \<^verbatim>\<open>null\<close> or a handle that is not pending does nothing.\<close>

definition clearTimeout :: "handle option \<Rightarrow> state \<Rightarrow> state" where
  "clearTimeout h s = (case h of None \<Rightarrow> s | Some x \<Rightarrow> s\<lparr>pending := (pending s)(x := None)\<rparr>)"

definition clearInterval :: "handle option \<Rightarrow> state \<Rightarrow> state" where
  "clearInterval h s = (case h of None \<Rightarrow> s | Some x \<Rightarrow> s\<lparr>pending := (pending s)(x := None)\<rparr>)"

section \<open>The registry and the reclamation queue\<close>

definition addTimerToPool :: "ref \<Rightarrow> state \<Rightarrow> nat \<times> state" where
  "addTimerToPool t s =
     (length (timerPool s @ [t]) - 1, s\<lparr>timerPool := timerPool s @ [t]\<rparr>)"

text \<open>\<^verbatim>\<open>Array.prototype.splice(i, 1)\<close>; an index past the end removes nothing.\<close>

definition splice1 :: "nat \<Rightarrow> 'a list \<Rightarrow> 'a list" where
  "splice1 i xs = take i xs @ drop (Suc i) xs"

definition id_of :: "receiver \<Rightarrow> state \<Rightarrow> nat option" where
  "id_of this s = (case this of BasePrototype \<Rightarrow> None | Inst r \<Rightarrow> obj_id (store s r))"

text \<open>
  \<^verbatim>\<open>timerPool.splice(timer.id, 1)\<close>: an \<^verbatim>\<open>undefined\<close> start index is converted to 0.
\<close>

definition removeTimerFromPool :: "receiver \<Rightarrow> state \<Rightarrow> state" where
  "removeTimerFromPool this s =
     s\<lparr>timerPool := splice1 (case id_of this s of None \<Rightarrow> 0 | Some i \<Rightarrow> i) (timerPool s)\<rparr>"

definition cleanupCallback :: "retired \<Rightarrow> state \<Rightarrow> state" where
  "cleanupCallback cb s = s\<lparr>callbacksPool := callbacksPool s @ [cb]\<rparr>"

definition poolSize :: "state \<Rightarrow> int" where
  "poolSize s = int (length (timerPool s)) - 5"

text \<open>The periodic sweep: drop the head until the queue is empty.\<close>

fun drain :: "retired list \<Rightarrow> retired list" where
  "drain [] = []"
| "drain (x # xs) = drain xs"

definition sweep :: "state \<Rightarrow> state" where
  "sweep s = s\<lparr>callbacksPool := drain (callbacksPool s)\<rparr>"

section \<open>AbstractTimer.prototype\<close>

definition upd :: "ref \<Rightarrow> (timer_obj \<Rightarrow> timer_obj) \<Rightarrow> state \<Rightarrow> state" where
  "upd r f s = s\<lparr>store := (store s)(r := f (store s r))\<rparr>"

definition timerFn_of :: "receiver \<Rightarrow> state \<Rightarrow> retired" where
  "timerFn_of this s =
     (case this of BasePrototype \<Rightarrow> RUndefined
      | Inst r \<Rightarrow> (case p_timerFn (store s r) of None \<Rightarrow> RNull | Some w \<Rightarrow> RWrapper w))"

definition set_timer_null :: "receiver \<Rightarrow> state \<Rightarrow> state" where
  "set_timer_null this s =
     (case this of BasePrototype \<Rightarrow> s\<lparr>base := (base s)\<lparr>base_timer := Some None\<rparr>\<rparr>
      | Inst r \<Rightarrow> upd r (\<lambda>ob. ob\<lparr>p_timer := None\<rparr>) s)"

definition isRunning :: "state \<Rightarrow> ref \<Rightarrow> bool" where
  "isRunning s r = p_running (store s r)"

text \<open>\<^verbatim>\<open>cancel\<close> of the base: \<^verbatim>\<open>this._timer = null; this._running = false\<close>.\<close>

definition AbstractTimer_cancel :: "receiver \<Rightarrow> state \<Rightarrow> state" where
  "AbstractTimer_cancel this s =
     (case this of
        BasePrototype \<Rightarrow> s\<lparr>base := \<lparr>base_timer = Some None, base_running = Some False\<rparr>\<rparr>
      | Inst r \<Rightarrow> upd r (\<lambda>ob. ob\<lparr>p_timer := None, p_running := False\<rparr>) s)"

text \<open>
  \<^verbatim>\<open>Timer.prototype.cancel\<close> ends with \<^verbatim>\<open>Timer.base.cancel()\<close>: the receiver of that
  call is \<^verbatim>\<open>Timer.base\<close>, not the timer. \<^verbatim>\<open>IntervalTimer.prototype.cancel\<close> ends with
  \<^verbatim>\<open>IntervalTimer.base.cancel.call(this)\<close>.
\<close>

definition Timer_cancel :: "ref \<Rightarrow> state \<Rightarrow> state" where
  "Timer_cancel r s = AbstractTimer_cancel BasePrototype (clearTimeout (p_timer (store s r)) s)"

definition IntervalTimer_cancel :: "ref \<Rightarrow> state \<Rightarrow> state" where
  "IntervalTimer_cancel r s = AbstractTimer_cancel (Inst r) (clearInterval (p_timer (store s r)) s)"

text \<open>\<^verbatim>\<open>this.cancel()\<close>: the method the receiver resolves.\<close>

definition cancel :: "receiver \<Rightarrow> state \<Rightarrow> state" where
  "cancel this s =
     (case this of
        BasePrototype \<Rightarrow> AbstractTimer_cancel BasePrototype s
      | Inst r \<Rightarrow>
          (case kind (store s r) of
             AbstractK \<Rightarrow> AbstractTimer_cancel (Inst r) s
           | IntervalK \<Rightarrow> IntervalTimer_cancel r s
           | _ \<Rightarrow> Timer_cancel r s))"

text \<open>
  \<^verbatim>\<open>kill\<close> of the base: enqueue \<^verbatim>\<open>this._timerFn\<close>, \<^verbatim>\<open>this.cancel()\<close>, remove \<^verbatim>\<open>this\<close>
  from the pool, \<^verbatim>\<open>this._timer = null\<close>.
\<close>

definition AbstractTimer_kill :: "receiver \<Rightarrow> state \<Rightarrow> state" where
  "AbstractTimer_kill this s =
     set_timer_null this
       (removeTimerFromPool this
          (cancel this
             (cleanupCallback (timerFn_of this s) s)))"

text \<open>
  \<^verbatim>\<open>Timer.prototype.kill\<close>: \<^verbatim>\<open>this.cancel(); Timer.base.kill()\<close>, the second call again
  with \<^verbatim>\<open>Timer.base\<close> as receiver. \<^verbatim>\<open>IntervalTimer.prototype.kill\<close>:
  \<^verbatim>\<open>this.cancel(); IntervalTimer.base.kill.call(this)\<close>.
\<close>

definition Timer_kill :: "ref \<Rightarrow> state \<Rightarrow> state" where
  "Timer_kill r s = AbstractTimer_kill BasePrototype (cancel (Inst r) s)"

definition IntervalTimer_kill :: "ref \<Rightarrow> state \<Rightarrow> state" where
  "IntervalTimer_kill r s = AbstractTimer_kill (Inst r) (cancel (Inst r) s)"

definition kill :: "ref \<Rightarrow> state \<Rightarrow> state" where
  "kill r s =
     (case kind (store s r) of
        AbstractK \<Rightarrow> AbstractTimer_kill (Inst r) s
      | IntervalK \<Rightarrow> IntervalTimer_kill r s
      | _ \<Rightarrow> Timer_kill r s)"

text \<open>\<^verbatim>\<open>pause\<close> is not overridden: \<^verbatim>\<open>this.cancel(); this._paused = true\<close>.\<close>

definition pause :: "ref \<Rightarrow> state \<Rightarrow> state" where
  "pause r s = upd r (\<lambda>ob. ob\<lparr>p_paused := True\<rparr>) (cancel (Inst r) s)"

text \<open>
  \<^verbatim>\<open>callback()\<close> without argument: build the wrapper if \<^verbatim>\<open>_timerFn\<close> is \<^verbatim>\<open>null\<close>, and
  return \<^verbatim>\<open>_timerFn\<close>.
\<close>

definition callback_get :: "ref \<Rightarrow> state \<Rightarrow> wrapper \<times> state" where
  "callback_get r s =
     (case p_timerFn (store s r) of
        Some w \<Rightarrow> (w, s)
      | None \<Rightarrow>
          (let w = Wrapper (p_callback (store s r)) r
           in (w, upd r (\<lambda>ob. ob\<lparr>p_timerFn := Some w\<rparr>) s)))"

text \<open>\<^verbatim>\<open>timer(h)\<close> with a handle stores it; \<^verbatim>\<open>interval()\<close> without argument reads.\<close>

definition timer_set :: "ref \<Rightarrow> handle \<Rightarrow> state \<Rightarrow> state" where
  "timer_set r h s = upd r (\<lambda>ob. ob\<lparr>p_timer := Some h\<rparr>) s"

definition interval_get :: "ref \<Rightarrow> state \<Rightarrow> int option" where
  "interval_get r s = p_interval (store s r)"

text \<open>\<^verbatim>\<open>interval(v)\<close>: \<^verbatim>\<open>this.cancel(); this._interval = v\<close>.\<close>

definition interval_set :: "ref \<Rightarrow> int \<Rightarrow> state \<Rightarrow> state" where
  "interval_set r v s = upd r (\<lambda>ob. ob\<lparr>p_interval := Some v\<rparr>) (cancel (Inst r) s)"

text \<open>\<^verbatim>\<open>restart\<close> of the base: \<^verbatim>\<open>this.cancel(); this._running = true; this._paused = false\<close>.\<close>

definition AbstractTimer_restart :: "ref \<Rightarrow> state \<Rightarrow> state" where
  "AbstractTimer_restart r s =
     upd r (\<lambda>ob. ob\<lparr>p_running := True, p_paused := False\<rparr>) (cancel (Inst r) s)"

text \<open>\<^verbatim>\<open>this.timer(global.setTimeout(this.callback(), this.interval()))\<close>.\<close>

definition Timer_restart :: "ref \<Rightarrow> state \<Rightarrow> state" where
  "Timer_restart r s =
     (let (w, s1) = callback_get r s;
          d = interval_get r s1;
          (h, s2) = setTimeout (WrapperFn w) d s1
      in timer_set r h s2)"

definition IntervalTimer_restart :: "ref \<Rightarrow> state \<Rightarrow> state" where
  "IntervalTimer_restart r s =
     (let s0 = cancel (Inst r) s;
          (w, s1) = callback_get r s0;
          d = interval_get r s1;
          (h, s2) = setInterval (WrapperFn w) d s1
      in timer_set r h s2)"

definition OneShotTimer_restart :: "ref \<Rightarrow> state \<Rightarrow> state" where
  "OneShotTimer_restart r s =
     (if \<not> p_paused (store s r) \<and> p_running (store s r) then s else Timer_restart r s)"

definition restart :: "ref \<Rightarrow> state \<Rightarrow> state" where
  "restart r s =
     (case kind (store s r) of
        AbstractK \<Rightarrow> AbstractTimer_restart r s
      | TimerK \<Rightarrow> Timer_restart r s
      | IntervalK \<Rightarrow> IntervalTimer_restart r s
      | MultiK \<Rightarrow> Timer_restart r s
      | OneShotK \<Rightarrow> OneShotTimer_restart r s
      | TriggerK \<Rightarrow> OneShotTimer_restart r s)"

text \<open>
  \<^verbatim>\<open>callback(f)\<close> with a function: store it, drop the wrapper, and restart if
  \<^verbatim>\<open>isRunning()\<close>; the result is \<^verbatim>\<open>_timerFn\<close>.
\<close>

definition callback_set :: "ref \<Rightarrow> fn \<Rightarrow> state \<Rightarrow> wrapper option \<times> state" where
  "callback_set r f s =
     (let s1 = upd r (\<lambda>ob. ob\<lparr>p_callback := Some f, p_timerFn := None\<rparr>) s;
          s2 = (if isRunning s1 r then restart r s1 else s1)
      in (p_timerFn (store s2 r), s2))"

section \<open>Construction\<close>

text \<open>
  The constructor \<^verbatim>\<open>AbstractTimer\<close>, which every variant's constructor calls on the
  fresh object: set the fields, \<^verbatim>\<open>this.id = addTimerToPool(this)\<close>, \<^verbatim>\<open>this.restart()\<close>.
  The first argument is the method table of the fresh object, fixed by the \<^verbatim>\<open>new\<close>
  expression that created it.
\<close>

definition AbstractTimer :: "kind \<Rightarrow> int option \<Rightarrow> fn option \<Rightarrow> state \<Rightarrow> ref \<times> state" where
  "AbstractTimer k interval callback s =
     (let r = nextRef s;
          s1 = s\<lparr>nextRef := Suc r,
                 store := (store s)(r :=
                   \<lparr>kind = k, p_timer = None, p_interval = interval, p_callback = callback,
                    p_running = False, p_paused = False, p_timerFn = None, obj_id = None\<rparr>)\<rparr>;
          (i, s2) = addTimerToPool r s1;
          s3 = upd r (\<lambda>ob. ob\<lparr>obj_id := Some i\<rparr>) s2
      in (r, restart r s3))"

text \<open>The factories of \<^verbatim>\<open>global.TimersJS\<close>.\<close>

definition timer :: "int option \<Rightarrow> fn option \<Rightarrow> state \<Rightarrow> ref \<times> state" where
  "timer interval callback s = AbstractTimer TimerK interval callback s"

definition repeater :: "int option \<Rightarrow> fn option \<Rightarrow> state \<Rightarrow> ref \<times> state" where
  "repeater interval callback s = AbstractTimer IntervalK interval callback s"

definition multi :: "int option \<Rightarrow> int \<Rightarrow> ufn option \<Rightarrow> ufn option \<Rightarrow> state \<Rightarrow> ref \<times> state" where
  "multi interval reps callback completion s =
     (let c = nextCounters s;
          s1 = s\<lparr>nextCounters := Suc c,
                 counters := (counters s)(c := \<lparr>repetitions = reps, totalRepetitions = 0\<rparr>)\<rparr>
      in AbstractTimer MultiK interval (Some (MultiInternal c callback completion)) s1)"

definition oneShot :: "int option \<Rightarrow> ufn option \<Rightarrow> state \<Rightarrow> ref \<times> state" where
  "oneShot interval callback s =
     AbstractTimer OneShotK interval (Some (OneShotInner (map_option UserI callback))) s"

definition trigger ::
  "int option \<Rightarrow> ufn option \<Rightarrow> int option \<Rightarrow> ufn option \<Rightarrow> state \<Rightarrow> ref \<times> state" where
  "trigger interval callback triggerRate triggerCallback s =
     (let (sub, s1) = AbstractTimer IntervalK triggerRate (map_option User triggerCallback) s
      in AbstractTimer TriggerK interval
           (Some (OneShotInner (Some (TriggerCompletion sub callback)))) s1)"

section \<open>Callbacks\<close>

text \<open>
  A call of a caller-supplied function \<open>u\<close>. The call is recorded; then the function
  makes the calls of its body on its receiver. Where the receiver is not a timer (the
  completion callback of a bounded-repetition timer is called as a method of the closure),
  the first such call throws, since the closure has none of these methods.
\<close>

definition do_action :: "action \<Rightarrow> ref \<Rightarrow> state \<Rightarrow> state" where
  "do_action a t s =
     (case a of
        ARestart \<Rightarrow> restart t s
      | AKill \<Rightarrow> kill t s
      | ACancel \<Rightarrow> cancel (Inst t) s
      | APause \<Rightarrow> pause t s)"

definition call_user :: "ufn \<Rightarrow> ref option \<Rightarrow> int list \<Rightarrow> state \<Rightarrow> outcome \<times> state" where
  "call_user u this args s =
     (let s1 = s\<lparr>trace := trace s @ [Call u this args (timerPool s)]\<rparr>
      in case this of
           Some t \<Rightarrow> (Returned, fold (\<lambda>a. do_action a t) (body s u) s1)
         | None \<Rightarrow> (if body s u = [] then (Returned, s1) else (TypeError, s1)))"

text \<open>Sequencing: an exception skips the rest of the function that is running.\<close>

definition and_then ::
  "outcome \<times> state \<Rightarrow> (state \<Rightarrow> outcome \<times> state) \<Rightarrow> outcome \<times> state" where
  "and_then r f = (case r of (Returned, s) \<Rightarrow> f s | (TypeError, s) \<Rightarrow> (TypeError, s))"

text \<open>
  \<^verbatim>\<open>completionCallback\<close> of \<^verbatim>\<open>OneShotTrigger\<close>: kill the owned interval timer, call the
  caller's callback (calling \<^verbatim>\<open>undefined\<close> throws), enqueue the closure.
\<close>

definition trigger_completion :: "ref \<Rightarrow> ufn option \<Rightarrow> ref \<Rightarrow> state \<Rightarrow> outcome \<times> state" where
  "trigger_completion sub cb t s =
     (let s1 = kill sub s
      in case cb of
           None \<Rightarrow> (TypeError, s1)
         | Some u \<Rightarrow>
             and_then (call_user u (Some t) [] s1)
               (\<lambda>s2. (Returned, cleanupCallback (RInner (TriggerCompletion sub cb)) s2)))"

definition call_inner :: "inner_fn \<Rightarrow> ref \<Rightarrow> state \<Rightarrow> outcome \<times> state" where
  "call_inner f t s =
     (case f of
        UserI u \<Rightarrow> call_user u (Some t) [] s
      | TriggerCompletion sub cb \<Rightarrow> trigger_completion sub cb t s)"

text \<open>
  \<^verbatim>\<open>innerCallback\<close> of \<^verbatim>\<open>OneShotTimer\<close>: if there is a callback, call it, then
  \<^verbatim>\<open>this.kill()\<close> and enqueue the closure.
\<close>

definition oneshot_inner :: "inner_fn option \<Rightarrow> ref \<Rightarrow> state \<Rightarrow> outcome \<times> state" where
  "oneshot_inner cbf t s =
     (case cbf of
        None \<Rightarrow> (Returned, s)
      | Some f \<Rightarrow>
          and_then (call_inner f t s)
            (\<lambda>s1. (Returned, cleanupCallback (RFn (OneShotInner cbf)) (kill t s1))))"

text \<open>
  The two counters of \<^verbatim>\<open>internalCallback\<close> are JavaScript numbers, that is IEEE 754
  doubles; \<open>repetitions\<close> is taken to be an integer that a double holds exactly.
  \<^verbatim>\<open>x--\<close> and \<^verbatim>\<open>x++\<close> round \<open>x - 1\<close> and \<open>x + 1\<close> to the nearest double, ties to
  the even significand: exact up to \<open>2^53\<close> in absolute value; between \<open>2^53\<close> and
  \<open>2^54\<close> doubles are the even integers and the odd result is a tie; from \<open>2^54\<close> on,
  the result is \<open>x\<close> again.
\<close>

definition js_dec :: "int \<Rightarrow> int" where
  "js_dec x =
     (if \<bar>x - 1\<bar> \<le> 2 ^ 53 then x - 1
      else if \<bar>x\<bar> < 2 ^ 54 then (if x mod 4 = 0 then x else x - 2)
      else x)"

definition js_inc :: "int \<Rightarrow> int" where
  "js_inc x =
     (if \<bar>x + 1\<bar> \<le> 2 ^ 53 then x + 1
      else if \<bar>x\<bar> < 2 ^ 54 then (if x mod 4 = 0 then x else x + 2)
      else x)"

text \<open>
  \<^verbatim>\<open>internalCallback\<close> of \<^verbatim>\<open>MultiTimer\<close>. \<^verbatim>\<open>aC.repetitions-- > 0\<close> compares the old
  value and decrements in both branches. \<^verbatim>\<open>aC.completionCallback()\<close> is a method call
  on the closure, so its receiver is not a timer.
\<close>

definition multi_internal ::
  "nat \<Rightarrow> ufn option \<Rightarrow> ufn option \<Rightarrow> ref \<Rightarrow> state \<Rightarrow> outcome \<times> state" where
  "multi_internal c cbf cc t s =
     (let old = repetitions (counters s c);
          s1 = s\<lparr>counters := (counters s)(c := (counters s c)\<lparr>repetitions := js_dec old\<rparr>)\<rparr>
      in if old > 0 then
           (case cbf of
              None \<Rightarrow> (TypeError, s1)
            | Some u \<Rightarrow>
                and_then (call_user u (Some t) [totalRepetitions (counters s1 c)] s1)
                  (\<lambda>s2. (Returned,
                     restart t
                       (s2\<lparr>counters := (counters s2)(c := (counters s2 c)
                              \<lparr>totalRepetitions := js_inc (totalRepetitions (counters s2 c))\<rparr>)\<rparr>))))
         else
           and_then (case cc of None \<Rightarrow> (Returned, s1) | Some d \<Rightarrow> call_user d None [] s1)
             (\<lambda>s2. (Returned, cleanupCallback (RFn (MultiInternal c cbf cc)) (kill t s2))))"

definition call_fn :: "fn \<Rightarrow> ref \<Rightarrow> state \<Rightarrow> outcome \<times> state" where
  "call_fn f t s =
     (case f of
        User u \<Rightarrow> call_user u (Some t) [] s
      | MultiInternal c cbf cc \<Rightarrow> multi_internal c cbf cc t s
      | OneShotInner cbf \<Rightarrow> oneshot_inner cbf t s)"

text \<open>
  The wrapper's body: if \<^verbatim>\<open>timerCallback\<close> is set, call it with \<^verbatim>\<open>timer\<close> as receiver.
\<close>

definition invoke_wrapper :: "wrapper \<Rightarrow> state \<Rightarrow> outcome \<times> state" where
  "invoke_wrapper w s =
     (case timerCallback w of None \<Rightarrow> (Returned, s) | Some f \<Rightarrow> call_fn f (timer_of w) s)"

text \<open>
  The host fires a pending entry: a timeout is consumed by firing, an interval stays.
\<close>

definition fire :: "handle \<Rightarrow> state \<Rightarrow> outcome \<times> state" where
  "fire h s =
     (case pending s h of
        None \<Rightarrow> (Returned, s)
      | Some e \<Rightarrow>
          (let s1 = (case p_mode e of
                       Timeout \<Rightarrow> s\<lparr>pending := (pending s)(h := None)\<rparr>
                     | Interval \<Rightarrow> s)
           in case p_fn e of
                WrapperFn w \<Rightarrow> invoke_wrapper w s1
              | SweepFn \<Rightarrow> (Returned, sweep s1)))"

text \<open>The host fires the timeout a timer currently holds, \<open>n\<close> times in a row.\<close>

definition fire_current :: "ref \<Rightarrow> state \<Rightarrow> outcome \<times> state" where
  "fire_current t s = (case p_timer (store s t) of None \<Rightarrow> (Returned, s) | Some h \<Rightarrow> fire h s)"

fun run_fires :: "nat \<Rightarrow> ref \<Rightarrow> state \<Rightarrow> outcome \<times> state" where
  "run_fires 0 t s = (Returned, s)"
| "run_fires (Suc n) t s =
     and_then (fire_current t s) (run_fires n t)"

section \<open>Bulk operations\<close>

text \<open>
  \<^verbatim>\<open>while (timerPool.length > 0) timerPool[0].cancel()\<close> and the same loop with
  \<^verbatim>\<open>kill\<close>. Neither loop has a bound, so a loop that does not return is \<open>None\<close>.
\<close>

partial_function (option) cancelAllTimers :: "state \<Rightarrow> state option" where
  "cancelAllTimers s =
     (if length (timerPool s) > 0 then cancelAllTimers (cancel (Inst (timerPool s ! 0)) s)
      else Some s)"

partial_function (option) killAllTimers :: "state \<Rightarrow> state option" where
  "killAllTimers s =
     (if length (timerPool s) > 0 then killAllTimers (kill (timerPool s ! 0) s)
      else Some s)"

section \<open>Module initialisation\<close>

definition blank :: timer_obj where
  "blank = \<lparr>kind = AbstractK, p_timer = None, p_interval = None, p_callback = None,
            p_running = False, p_paused = False, p_timerFn = None, obj_id = None\<rparr>"

definition empty_state :: state where
  "empty_state =
     \<lparr>timerPool = [], callbacksPool = [], store = (\<lambda>_. blank), nextRef = 0,
      counters = (\<lambda>_. \<lparr>repetitions = 0, totalRepetitions = 0\<rparr>), nextCounters = 0,
      base = \<lparr>base_timer = None, base_running = None\<rparr>,
      pending = Map.empty, nextHandle = 0, trace = [], body = (\<lambda>_. [])\<rparr>"

text \<open>
  Assigning \<^verbatim>\<open>cancel\<close>, \<^verbatim>\<open>kill\<close> and \<^verbatim>\<open>restart\<close> to a prototype object after it was
  built changes the methods that object itself resolves.
\<close>

definition set_kind :: "ref \<Rightarrow> kind \<Rightarrow> state \<Rightarrow> state" where
  "set_kind r k s = upd r (\<lambda>ob. ob\<lparr>kind := k\<rparr>) s"

text \<open>
  Loading the module starts from the empty state, in which no caller function has a
  body yet, and runs, in this order: \<^verbatim>\<open>Timer.prototype = new AbstractTimer()\<close> and
  the three methods of \<^verbatim>\<open>Timer.prototype\<close>; the same for \<^verbatim>\<open>IntervalTimer\<close>;
  \<^verbatim>\<open>MultiTimer.prototype = new Timer()\<close>; \<^verbatim>\<open>OneShotTimer.prototype = new Timer()\<close> and
  its \<^verbatim>\<open>restart\<close>; \<^verbatim>\<open>OneShotTrigger.prototype = new OneShotTimer()\<close>; the sweep's
  \<^verbatim>\<open>setInterval\<close>. Each of the five prototype objects registers itself in the pool.
\<close>

definition init_state :: state where
  "init_state =
     (let (tp, s1) = AbstractTimer AbstractK None None empty_state;
          s2 = set_kind tp TimerK s1;
          (ip, s3) = AbstractTimer AbstractK None None s2;
          s4 = set_kind ip IntervalK s3;
          (mp, s5) = AbstractTimer TimerK None None s4;
          (osp, s6) = AbstractTimer TimerK None None s5;
          s7 = set_kind osp OneShotK s6;
          (trp, s8) = AbstractTimer OneShotK None (Some (OneShotInner None)) s7;
          (h, s9) = setInterval SweepFn (Some 500) s8
      in s9)"

section \<open>Concrete scenarios\<close>

text \<open>The state right after the module is loaded, written out.\<close>

definition init_literal :: state where
  "init_literal =
     \<lparr>timerPool = [0, 1, 2, 3, 4], callbacksPool = [],
      store = (\<lambda>_. blank)
        (0 := \<lparr>kind = TimerK, p_timer = None, p_interval = None, p_callback = None,
               p_running = True, p_paused = False, p_timerFn = None, obj_id = Some 0\<rparr>,
         1 := \<lparr>kind = IntervalK, p_timer = None, p_interval = None, p_callback = None,
               p_running = True, p_paused = False, p_timerFn = None, obj_id = Some 1\<rparr>,
         2 := \<lparr>kind = TimerK, p_timer = Some 0, p_interval = None, p_callback = None,
               p_running = False, p_paused = False, p_timerFn = Some (Wrapper None 2),
               obj_id = Some 2\<rparr>,
         3 := \<lparr>kind = OneShotK, p_timer = Some 1, p_interval = None, p_callback = None,
               p_running = False, p_paused = False, p_timerFn = Some (Wrapper None 3),
               obj_id = Some 3\<rparr>,
         4 := \<lparr>kind = OneShotK, p_timer = Some 2, p_interval = None,
               p_callback = Some (OneShotInner None),
               p_running = False, p_paused = False,
               p_timerFn = Some (Wrapper (Some (OneShotInner None)) 4), obj_id = Some 4\<rparr>),
      nextRef = 5,
      counters = (\<lambda>_. \<lparr>repetitions = 0, totalRepetitions = 0\<rparr>), nextCounters = 0,
      base = \<lparr>base_timer = None, base_running = None\<rparr>,
      pending = [0 \<mapsto> \<lparr>p_mode = Timeout, p_fn = WrapperFn (Wrapper None 2), p_delay = None\<rparr>,
                 1 \<mapsto> \<lparr>p_mode = Timeout, p_fn = WrapperFn (Wrapper None 3), p_delay = None\<rparr>,
                 2 \<mapsto> \<lparr>p_mode = Timeout,
                        p_fn = WrapperFn (Wrapper (Some (OneShotInner None)) 4), p_delay = None\<rparr>,
                 3 \<mapsto> \<lparr>p_mode = Interval, p_fn = SweepFn, p_delay = Some 500\<rparr>],
      nextHandle = 4, trace = [], body = (\<lambda>_. [])\<rparr>"

text \<open>
  \<^verbatim>\<open>t = TimersJS.timer(100, f)\<close> on the freshly loaded module (\<open>f\<close> has tag 7); the
  new timer is object 5 and its timeout is handle 4.
\<close>

definition one_timer :: state where
  "one_timer = snd (timer (Some 100) (Some (User 7)) init_state)"

text \<open>\<^verbatim>\<open>a = TimersJS.repeater(100, f); b = TimersJS.repeater(100, f)\<close>: objects 5 and 6.\<close>

definition two_repeaters :: state where
  "two_repeaters =
     snd (repeater (Some 100) (Some (User 7)) (snd (repeater (Some 100) (Some (User 7)) init_state)))"

text \<open>Then \<^verbatim>\<open>a.kill(); c = TimersJS.repeater(100, f)\<close>: object 7.\<close>

definition third_repeater :: state where
  "third_repeater = snd (repeater (Some 100) (Some (User 7)) (kill 5 two_repeaters))"

text \<open>
  \<^verbatim>\<open>t = TimersJS.oneShot(100, f); t.restart(); t.restart()\<close>: object 5, with the
  timeouts 4, 5 and 6 pending.
\<close>

definition one_shot_restarted :: state where
  "one_shot_restarted = restart 5 (restart 5 (snd (oneShot (Some 100) (Some 7) init_state)))"

text \<open>
  \<^verbatim>\<open>m = TimersJS.multi(100, 3, cb, done); m.kill()\<close> (\<open>cb\<close> has tag 7, \<open>done\<close> tag 8):
  object 5, whose wrapper is \<open>multi_wrapper\<close>.
\<close>

definition multi_wrapper :: wrapper where
  "multi_wrapper = Wrapper (Some (MultiInternal 0 (Some 7) (Some 8))) 5"

definition multi_killed :: state where
  "multi_killed = kill 5 (snd (multi (Some 100) 3 (Some 7) (Some 8) init_state))"

text \<open>
  \<^verbatim>\<open>t = TimersJS.oneShot(100, f); t.kill()\<close>: object 5, whose wrapper is
  \<open>one_shot_wrapper\<close>.
\<close>

definition one_shot_wrapper :: wrapper where
  "one_shot_wrapper = Wrapper (Some (OneShotInner (Some (UserI 7)))) 5"

definition one_shot_killed :: state where
  "one_shot_killed = kill 5 (snd (oneShot (Some 100) (Some 7) init_state))"

text \<open>
  The caller's function with tag 9 is the one of the README,
  \<^verbatim>\<open>function() { ...; this.restart(); }\<close>. Then
  \<^verbatim>\<open>t = TimersJS.timer(250, f); t.kill()\<close>: object 5, whose wrapper is \<open>readme_wrapper\<close>.
\<close>

definition readme_wrapper :: wrapper where
  "readme_wrapper = Wrapper (Some (User 9)) 5"

definition readme_timer_killed :: state where
  "readme_timer_killed =
     kill 5 (snd (timer (Some 250) (Some (User 9))
                    (init_state\<lparr>body := (body init_state)(9 := [ARestart])\<rparr>)))"

text \<open>
  \<^verbatim>\<open>m = TimersJS.multi(100, 3); m.kill()\<close>, the callback left out: object 5, whose
  wrapper is \<open>bare_multi_wrapper\<close>.
\<close>

definition bare_multi_wrapper :: wrapper where
  "bare_multi_wrapper = Wrapper (Some (MultiInternal 0 None None)) 5"

definition bare_multi_killed :: state where
  "bare_multi_killed = kill 5 (snd (multi (Some 100) 3 None None init_state))"

text \<open>
  \<^verbatim>\<open>m = TimersJS.multi(100, 0, cb, done); m.restart(); m.restart()\<close>: object 5, with
  the timeouts 4, 5 and 6 pending.
\<close>

definition multi_restarted :: state where
  "multi_restarted = restart 5 (restart 5 (snd (multi (Some 100) 0 (Some 7) (Some 8) init_state)))"

text \<open>
  \<^verbatim>\<open>TimersJS.multi(i, N, cb, dn)\<close> in state \<open>s\<close>, after which the host fires the timeout
  the new timer holds, \<open>N + 1\<close> times (once for a negative \<open>N\<close>).
\<close>

definition multi_run :: "int option \<Rightarrow> int \<Rightarrow> ufn \<Rightarrow> ufn option \<Rightarrow> state \<Rightarrow> outcome \<times> state" where
  "multi_run i N cb dn s =
     run_fires (Suc (nat N)) (fst (multi i N (Some cb) dn s)) (snd (multi i N (Some cb) dn s))"

text \<open>
  \<open>killAllTimers\<close> is stuck when the entry at position 0 is an interval timer whose id
  is not 0: its \<open>kill\<close> removes the entry at its id, never itself.
\<close>

definition stuck :: "state \<Rightarrow> bool" where
  "stuck s =
     (case timerPool s of
        [] \<Rightarrow> False
      | r # rest \<Rightarrow>
          kind (store s r) = IntervalK \<and>
          (case obj_id (store s r) of None \<Rightarrow> False | Some i \<Rightarrow> 0 < i))"

text \<open>
  When calling a function value throws: a bounded-repetition closure with repetitions
  remaining calls \<^verbatim>\<open>callbackFunction\<close> without testing it, and otherwise calls the
  completion callback as a method of the closure, where a completion callback that uses
  its receiver fails; a trigger's completion closure calls
  \<^verbatim>\<open>intervalCompletionCallback\<close> without testing it.
\<close>

fun fn_throws :: "fn \<Rightarrow> state \<Rightarrow> bool" where
  "fn_throws (User u) s = False"
| "fn_throws (MultiInternal c cbf cc) s =
     (if 0 < repetitions (counters s c) then cbf = None
      else (case cc of None \<Rightarrow> False | Some d \<Rightarrow> body s d \<noteq> []))"
| "fn_throws (OneShotInner None) s = False"
| "fn_throws (OneShotInner (Some (UserI u))) s = False"
| "fn_throws (OneShotInner (Some (TriggerCompletion sub cb))) s = (cb = None)"

definition throws :: "wrapper \<Rightarrow> state \<Rightarrow> bool" where
  "throws w s = (case timerCallback w of None \<Rightarrow> False | Some f \<Rightarrow> fn_throws f s)"

text \<open>
  When calling a function value can end in \<open>restart\<close>: a bounded-repetition closure with
  repetitions remaining restarts its timer; a caller's function called with the timer as
  receiver does when its body calls \<^verbatim>\<open>this.restart()\<close>.
\<close>

fun fn_may_restart :: "fn \<Rightarrow> state \<Rightarrow> bool" where
  "fn_may_restart (User u) s = (ARestart \<in> set (body s u))"
| "fn_may_restart (MultiInternal c cbf cc) s = (0 < repetitions (counters s c))"
| "fn_may_restart (OneShotInner None) s = False"
| "fn_may_restart (OneShotInner (Some (UserI u))) s = (ARestart \<in> set (body s u))"
| "fn_may_restart (OneShotInner (Some (TriggerCompletion sub cb))) s =
     (case cb of None \<Rightarrow> False | Some u \<Rightarrow> ARestart \<in> set (body s u))"

definition may_restart :: "wrapper \<Rightarrow> state \<Rightarrow> bool" where
  "may_restart w s = (case timerCallback w of None \<Rightarrow> False | Some f \<Rightarrow> fn_may_restart f s)"

text \<open>
  From \<open>s\<close> to \<open>s'\<close> no timer was registered or created: the registry of \<open>s'\<close> is a
  subsequence of that of \<open>s\<close> and no object was allocated. When \<open>quiet\<close>, nothing
  was scheduled either: no handle was allocated and every entry pending in \<open>s'\<close> was
  pending in \<open>s\<close>.
\<close>

definition grow_ok :: "bool \<Rightarrow> state \<Rightarrow> state \<Rightarrow> bool" where
  "grow_ok quiet s s' =
     (subseq (timerPool s') (timerPool s) \<and> nextRef s' = nextRef s \<and> body s' = body s \<and>
      (quiet \<longrightarrow> nextHandle s' = nextHandle s \<and> pending s' \<subseteq>\<^sub>m pending s))"

text \<open>The calls of the caller's callback with the indices below \<open>k\<close>, and the completion call.\<close>

definition repetition_calls :: "ufn \<Rightarrow> nat \<Rightarrow> state \<Rightarrow> event list" where
  "repetition_calls cb k s =
     map (\<lambda>j. Call cb (Some (nextRef s)) [int j] (timerPool s @ [nextRef s])) [0..<k]"

definition completion_call :: "ufn option \<Rightarrow> state \<Rightarrow> event list" where
  "completion_call dn s =
     (case dn of None \<Rightarrow> [] | Some d \<Rightarrow> [Call d None [] (timerPool s @ [nextRef s])])"

text \<open>
  The state \<open>x\<close> of a bounded-repetition timer built in \<open>s\<close>, after \<open>k\<close> repetitions:
  the timer holds the pending timeout \<open>nextHandle s + k\<close>, the counters are \<open>N - k\<close>
  and \<open>k\<close>, the trace has the \<open>k\<close> calls, and the registry is that of \<open>s\<close> with the timer.
\<close>

definition multi_inv ::
  "state \<Rightarrow> int option \<Rightarrow> int \<Rightarrow> ufn \<Rightarrow> ufn option \<Rightarrow> nat \<Rightarrow> state \<Rightarrow> bool" where
  "multi_inv s i N cb dn k x =
     (kind (store x (nextRef s)) = MultiK \<and>
      p_timerFn (store x (nextRef s)) =
        Some (Wrapper (Some (MultiInternal (nextCounters s) (Some cb) dn)) (nextRef s)) \<and>
      p_timer (store x (nextRef s)) = Some (nextHandle s + k) \<and>
      p_interval (store x (nextRef s)) = i \<and>
      pending x (nextHandle s + k) =
        Some \<lparr>p_mode = Timeout,
              p_fn = WrapperFn (Wrapper (Some (MultiInternal (nextCounters s) (Some cb) dn))
                       (nextRef s)),
              p_delay = i\<rparr> \<and>
      nextHandle x = Suc (nextHandle s + k) \<and>
      counters x (nextCounters s) = \<lparr>repetitions = N - int k, totalRepetitions = int k\<rparr> \<and>
      trace x = trace s @ repetition_calls cb k s \<and>
      timerPool x = timerPool s @ [nextRef s] \<and>
      body x = body s \<and>
      (pending x)(nextHandle s + k := None) \<subseteq>\<^sub>m pending s)"

section \<open>Unfolding rules and basic facts\<close>

lemmas cancel_defs = cancel_def Timer_cancel_def IntervalTimer_cancel_def AbstractTimer_cancel_def
  clearTimeout_def clearInterval_def upd_def

lemmas restart_defs = restart_def Timer_restart_def IntervalTimer_restart_def
  OneShotTimer_restart_def AbstractTimer_restart_def callback_get_def interval_get_def
  timer_set_def setTimeout_def setInterval_def

lemmas kill_defs = kill_def Timer_kill_def IntervalTimer_kill_def AbstractTimer_kill_def
  set_timer_null_def removeTimerFromPool_def id_of_def splice1_def cleanupCallback_def
  timerFn_of_def

lemmas ctor_defs = AbstractTimer_def addTimerToPool_def timer_def repeater_def multi_def
  oneShot_def trigger_def

lemmas call_defs = call_user_def trigger_completion_def call_inner_def oneshot_inner_def
  multi_internal_def call_fn_def invoke_wrapper_def fire_def fire_current_def sweep_def
  do_action_def and_then_def pause_def js_dec_def js_inc_def

lemmas eval_defs = init_literal_def ctor_defs restart_defs cancel_defs kill_defs call_defs
  isRunning_def poolSize_def Let_def split_def

lemma init_state_eq: "init_state = init_literal"
  by (simp add: init_state_def init_literal_def empty_state_def ctor_defs set_kind_def
      restart_defs cancel_defs blank_def Let_def split_def fun_eq_iff)

lemma AbstractTimer_not_running:
  "k \<noteq> AbstractK \<Longrightarrow>
   isRunning (snd (AbstractTimer k i cb s)) (fst (AbstractTimer k i cb s)) = False"
  by (cases k)
     (simp_all add: AbstractTimer_def addTimerToPool_def isRunning_def restart_defs cancel_defs
        Let_def split_def)

section \<open>Claims\<close>

text \<open>
  C10: for every variant and every state, a second \<open>cancel\<close> right after the first
  changes nothing: the whole state (the timer's handle, flags, interval and callback, the
  registry, the host's pending entries) is the same as after the first call.
\<close>

theorem C10_cancel_idempotent:
  "cancel (Inst t) (cancel (Inst t) s) = cancel (Inst t) s"
  by (cases "kind (store s t)"; cases "p_timer (store s t)") (simp_all add: cancel_defs)

text \<open>
  C2: the claim says that a timer built by a factory is Running, so that \<open>isRunning\<close> is
  true right after construction. In the code the \<open>restart\<close> of every variant leaves
  \<^verbatim>\<open>_running\<close> as the constructor set it, false: only the base's \<open>restart\<close> sets the flag,
  and no factory-built timer resolves to it. So for every factory, every argument and
  every state, \<open>isRunning\<close> is false right after construction; the last three
  conjuncts show on \<open>one_timer\<close> that the timer has nevertheless been handed to the
  host.
\<close>

theorem C2_not_running_after_construction:
  "\<not> isRunning (snd (timer i cb s)) (fst (timer i cb s)) \<and>
   \<not> isRunning (snd (repeater i cb s)) (fst (repeater i cb s)) \<and>
   \<not> isRunning (snd (multi i n u d s)) (fst (multi i n u d s)) \<and>
   \<not> isRunning (snd (oneShot i u s)) (fst (oneShot i u s)) \<and>
   \<not> isRunning (snd (trigger i u j v s)) (fst (trigger i u j v s)) \<and>
   p_timer (store one_timer 5) = Some 4 \<and>
   pending one_timer 4 =
     Some \<lparr>p_mode = Timeout, p_fn = WrapperFn (Wrapper (Some (User 7)) 5), p_delay = Some 100\<rparr> \<and>
   \<not> isRunning one_timer 5"
  by (simp add: timer_def repeater_def multi_def oneShot_def trigger_def
      AbstractTimer_not_running Let_def split_def)
     (simp add: one_timer_def init_state_eq eval_defs)


text \<open>
  C1: the claim says that \<open>kill\<close> removes the killed timer, and only it, from the
  registry, and that a second \<open>kill\<close> removes nothing more. On \<open>one_timer\<close>, killing
  timer 5 removes object 0 (\<^verbatim>\<open>Timer.prototype\<close>, the entry at position 0) and leaves 5
  registered; a second \<open>kill\<close> removes object 1 as well, so the count goes from 1 to
  -1. On \<open>two_repeaters\<close>, killing repeater 5 removes it, and killing it again removes
  repeater 6, which has moved into its slot.
\<close>

theorem C1_kill_removes_other_timers:
  "timerPool one_timer = [0, 1, 2, 3, 4, 5] \<and> poolSize one_timer = 1 \<and>
   timerPool (kill 5 one_timer) = [1, 2, 3, 4, 5] \<and> poolSize (kill 5 one_timer) = 0 \<and>
   timerPool (kill 5 (kill 5 one_timer)) = [2, 3, 4, 5] \<and>
   poolSize (kill 5 (kill 5 one_timer)) = - 1 \<and>
   timerPool two_repeaters = [0, 1, 2, 3, 4, 5, 6] \<and> poolSize two_repeaters = 2 \<and>
   timerPool (kill 5 two_repeaters) = [0, 1, 2, 3, 4, 6] \<and>
   timerPool (kill 5 (kill 5 two_repeaters)) = [0, 1, 2, 3, 4] \<and>
   poolSize (kill 5 (kill 5 two_repeaters)) = 0"
  by (simp add: one_timer_def two_repeaters_def init_state_eq eval_defs)

text \<open>
  C9: the claim says that the ids of the timers in the registry are pairwise distinct.
  An id is the length of the registry before the insertion, so after a removal the next
  timer gets an id that a live timer already has: in \<open>third_repeater\<close> the repeaters 6
  and 7 are both registered with id 6, and killing 6 removes 7.
\<close>

theorem C9_live_timers_share_an_id:
  "timerPool third_repeater = [0, 1, 2, 3, 4, 6, 7] \<and>
   obj_id (store third_repeater 6) = Some 6 \<and>
   obj_id (store third_repeater 7) = Some 6 \<and>
   timerPool (kill 6 third_repeater) = [0, 1, 2, 3, 4, 6]"
  by (simp add: third_repeater_def two_repeaters_def init_state_eq eval_defs)

text \<open>
  C4: the claim says that \<open>restart\<close> on a one-shot timer in flight does nothing, so
  that the caller's callback fires at most once. The guard of
  \<^verbatim>\<open>OneShotTimer.prototype.restart\<close> reads \<^verbatim>\<open>_running\<close>, which is false on every
  factory-built timer (see C2), so each \<open>restart\<close> arms one more timeout: in
  \<open>one_shot_restarted\<close> the timeouts 4, 5 and 6 are pending, and when the host fires
  them in order the caller's callback (tag 7) runs twice.
\<close>

theorem C4_one_shot_fires_twice:
  "pending one_shot_restarted 4 \<noteq> None \<and> pending one_shot_restarted 5 \<noteq> None \<and>
   pending one_shot_restarted 6 \<noteq> None \<and>
   trace one_shot_restarted = [] \<and>
   fst (fire 4 one_shot_restarted) = Returned \<and>
   fst (fire 5 (snd (fire 4 one_shot_restarted))) = Returned \<and>
   trace (snd (fire 6 (snd (fire 5 (snd (fire 4 one_shot_restarted)))))) =
     [Call 7 (Some 5) [] [0, 1, 2, 3, 4, 5], Call 7 (Some 5) [] [1, 2, 3, 4, 5]]"
  by (simp add: one_shot_restarted_def init_state_eq eval_defs)

text \<open>
  C8: the claim says that setting a new callback on a running timer restarts it, so that
  it is armed with the new callback. \<open>one_timer\<close> holds a timer that was just built and
  is pending at the host, with callback tag 7. Setting the callback with tag 9 returns
  \<^verbatim>\<open>null\<close> and arms nothing: \<^verbatim>\<open>isRunning()\<close> is false (see C2), so \<open>restart\<close> is not
  called. The pending entry still holds the wrapper of the old callback, and when the
  host fires it the old callback runs; the new one never does.
\<close>

theorem C8_new_callback_not_armed:
  "fst (callback_set 5 (User 9) one_timer) = None \<and>
   pending (snd (callback_set 5 (User 9) one_timer)) = pending one_timer \<and>
   nextHandle (snd (callback_set 5 (User 9) one_timer)) = nextHandle one_timer \<and>
   pending one_timer 4 =
     Some \<lparr>p_mode = Timeout, p_fn = WrapperFn (Wrapper (Some (User 7)) 5), p_delay = Some 100\<rparr> \<and>
   p_callback (store (snd (callback_set 5 (User 9) one_timer)) 5) = Some (User 9) \<and>
   trace (snd (fire 4 (snd (callback_set 5 (User 9) one_timer)))) =
     [Call 7 (Some 5) [] [0, 1, 2, 3, 4, 5]] \<and>
   pending (snd (fire 4 (snd (callback_set 5 (User 9) one_timer)))) 4 = None \<and>
   pending (snd (fire 4 (snd (callback_set 5 (User 9) one_timer)))) 5 = None"
  by (simp add: callback_set_def one_timer_def init_state_eq eval_defs)


subsection \<open>The bulk loops\<close>

lemma cancel_timerPool: "timerPool (cancel this s) = timerPool s"
  by (cases this; cases "kind (store s (case this of Inst r \<Rightarrow> r | BasePrototype \<Rightarrow> 0))";
      cases "p_timer (store s (case this of Inst r \<Rightarrow> r | BasePrototype \<Rightarrow> 0))")
     (simp_all add: cancel_defs)

lemma cancelAllTimers_returns_only_on_empty:
  "cancelAllTimers s = Some s' \<Longrightarrow> timerPool s = []"
proof (erule cancelAllTimers.raw_induct[rotated])
  fix loop :: "state \<Rightarrow> state option" and s s'
  assume IH: "\<And>x y. loop x = Some y \<Longrightarrow> timerPool x = []"
    and step: "(if 0 < length (timerPool s) then loop (cancel (Inst (timerPool s ! 0)) s)
                else Some s) = Some s'"
  show "timerPool s = []"
  proof (cases "timerPool s = []")
    case True
    then show ?thesis .
  next
    case False
    with step have "loop (cancel (Inst (timerPool s ! 0)) s) = Some s'"
      by simp
    then have "timerPool (cancel (Inst (timerPool s ! 0)) s) = []"
      by (rule IH)
    then show ?thesis
      by (simp add: cancel_timerPool)
  qed
qed

lemma cancelAllTimers_diverges: "timerPool s \<noteq> [] \<Longrightarrow> cancelAllTimers s = None"
  using cancelAllTimers_returns_only_on_empty [of s] by (cases "cancelAllTimers s") auto

text \<open>
  C6: the claim says that \<open>cancelAllTimers\<close> terminates for every registry state and
  leaves every timer cancelled and still registered. The loop runs while the registry is
  not empty and \<open>cancel\<close> never removes an entry, so on every non-empty registry it
  never returns; the registry of the freshly loaded module already holds the five
  prototype objects.
\<close>

theorem C6_cancelAllTimers_never_returns:
  "timerPool init_state = [0, 1, 2, 3, 4] \<and> cancelAllTimers init_state = None \<and>
   cancelAllTimers one_timer = None"
proof -
  have a: "timerPool init_state = [0, 1, 2, 3, 4]"
    by (simp add: init_state_eq init_literal_def)
  have b: "timerPool one_timer = [0, 1, 2, 3, 4, 5]"
    by (simp add: one_timer_def init_state_eq eval_defs)
  show ?thesis
    using a b by (simp add: cancelAllTimers_diverges)
qed

lemma stuck_kill: "stuck s \<Longrightarrow> stuck (kill (timerPool s ! 0) s)"
  by (cases "timerPool s"; cases "p_timer (store s (timerPool s ! 0))")
     (auto simp: stuck_def kill_defs cancel_defs gr0_conv_Suc split: option.splits)

lemma killAllTimers_not_stuck: "killAllTimers s = Some s' \<Longrightarrow> \<not> stuck s"
proof (erule killAllTimers.raw_induct[rotated])
  fix loop :: "state \<Rightarrow> state option" and s s'
  assume IH: "\<And>x y. loop x = Some y \<Longrightarrow> \<not> stuck x"
    and step: "(if 0 < length (timerPool s) then loop (kill (timerPool s ! 0) s)
                else Some s) = Some s'"
  show "\<not> stuck s"
  proof
    assume st: "stuck s"
    then have "timerPool s \<noteq> []"
      by (auto simp: stuck_def)
    with step have "loop (kill (timerPool s ! 0) s) = Some s'"
      by simp
    then have "\<not> stuck (kill (timerPool s ! 0) s)"
      by (rule IH)
    with stuck_kill [OF st] show False by simp
  qed
qed

lemma killAllTimers_empties: "killAllTimers s = Some s' \<Longrightarrow> timerPool s' = []"
proof (erule killAllTimers.raw_induct[rotated])
  fix loop :: "state \<Rightarrow> state option" and s s'
  assume IH: "\<And>x y. loop x = Some y \<Longrightarrow> timerPool y = []"
    and step: "(if 0 < length (timerPool s) then loop (kill (timerPool s ! 0) s)
                else Some s) = Some s'"
  show "timerPool s' = []"
  proof (cases "timerPool s = []")
    case True
    with step show ?thesis by simp
  next
    case False
    with step have "loop (kill (timerPool s ! 0) s) = Some s'"
      by simp
    then show ?thesis
      by (rule IH)
  qed
qed

lemma killAllTimers_poolSize: "killAllTimers s = Some s' \<Longrightarrow> poolSize s' = - 5"
  by (simp add: killAllTimers_empties poolSize_def)

lemma timer_family_kill:
  "kind (store s r) \<notin> {AbstractK, IntervalK} \<Longrightarrow>
   timerPool (kill r s) = drop 1 (timerPool s) \<and> store (kill r s) = store s"
  by (cases "kind (store s r)"; cases "p_timer (store s r)")
     (simp_all add: kill_defs cancel_defs)

lemma killAllTimers_timer_family:
  "\<forall>r \<in> set (timerPool s). kind (store s r) \<notin> {AbstractK, IntervalK} \<Longrightarrow>
   \<exists>s'. killAllTimers s = Some s'"
proof (induction "length (timerPool s)" arbitrary: s)
  case 0
  then show ?case
    by (subst killAllTimers.simps) simp
next
  case (Suc n)
  then obtain r rest where p: "timerPool s = r # rest"
    by (cases "timerPool s") auto
  with Suc.prems have k: "kind (store s r) \<notin> {AbstractK, IntervalK}"
    by simp
  have a: "timerPool (kill r s) = rest" and b: "store (kill r s) = store s"
    using timer_family_kill [OF k] p by simp_all
  have "\<exists>s'. killAllTimers (kill r s) = Some s'"
  proof (rule Suc.hyps(1))
    show "n = length (timerPool (kill r s))"
      using Suc.hyps(2) p a by simp
    show "\<forall>x \<in> set (timerPool (kill r s)). kind (store (kill r s) x) \<notin> {AbstractK, IntervalK}"
      using Suc.prems p a b by simp
  qed
  moreover have "killAllTimers s = killAllTimers (kill r s)"
    by (subst killAllTimers.simps) (simp add: p)
  ultimately show ?case
    by simp
qed

text \<open>
  C5: the claim says that \<open>killAllTimers\<close> terminates with \<open>activeTimerCount()\<close>
  equal to 0. On the freshly loaded module the first round kills \<^verbatim>\<open>Timer.prototype\<close>;
  then \<^verbatim>\<open>IntervalTimer.prototype\<close>, whose id is 1, is at position 0 and each round
  removes the entry at position 1, until it is alone and the loop spins forever. The
  same happens with a trigger timer in the registry. Where the loop does return, as
  after \<^verbatim>\<open>t.kill(); t.kill()\<close> on \<open>one_timer\<close>, the registry is empty and the count,
  which subtracts the five prototype objects, is -5.
\<close>

theorem C5_killAllTimers_never_returns:
  "killAllTimers init_state = None \<and>
   killAllTimers (snd (trigger (Some 1000) (Some 7) (Some 200) (Some 8) init_state)) = None \<and>
   (\<exists>s'. killAllTimers (kill 5 (kill 5 one_timer)) = Some s' \<and> poolSize s' = - 5)"
proof -
  have "\<forall>r \<in> set (timerPool (kill 5 (kill 5 one_timer))).
          kind (store (kill 5 (kill 5 one_timer)) r) \<notin> {AbstractK, IntervalK}"
    by (simp add: one_timer_def init_state_eq eval_defs)
  then obtain s' where "killAllTimers (kill 5 (kill 5 one_timer)) = Some s'"
    using killAllTimers_timer_family by blast
  then have d: "\<exists>s'. killAllTimers (kill 5 (kill 5 one_timer)) = Some s' \<and> poolSize s' = - 5"
    by (simp add: killAllTimers_poolSize)
  have a: "stuck (kill 0 init_state)"
    by (simp add: stuck_def init_state_eq eval_defs)
  have "killAllTimers init_state = killAllTimers (kill 0 init_state)"
    by (subst killAllTimers.simps) (simp add: init_state_eq init_literal_def)
  moreover have "killAllTimers (kill 0 init_state) = None"
    using killAllTimers_not_stuck [of "kill 0 init_state"] a
    by (cases "killAllTimers (kill 0 init_state)") auto
  ultimately have c: "killAllTimers init_state = None"
    by simp
  define s where "s = snd (trigger (Some 1000) (Some 7) (Some 200) (Some 8) init_state)"
  have p: "timerPool s = [0, 1, 2, 3, 4, 5, 6]"
    by (simp add: s_def init_state_eq eval_defs)
  have b: "stuck (kill 0 s)"
    by (simp add: stuck_def s_def init_state_eq eval_defs)
  have "killAllTimers s = killAllTimers (kill 0 s)"
    by (subst killAllTimers.simps) (simp add: p)
  moreover have "killAllTimers (kill 0 s) = None"
    using killAllTimers_not_stuck [of "kill 0 s"] b
    by (cases "killAllTimers (kill 0 s)") auto
  ultimately have "killAllTimers s = None"
    by simp
  with c d show ?thesis
    by (simp add: s_def)
qed


subsection \<open>What a callback invocation can change\<close>

lemma subseq_splice1: "subseq (splice1 i xs) xs"
proof -
  have "suffix (drop 1 (drop i xs)) (drop i xs)"
    by (rule suffix_drop)
  then have "subseq (drop (Suc i) xs) (drop i xs)"
    by (auto dest: suffix_imp_subseq)
  then have "subseq (take i xs @ drop (Suc i) xs) (take i xs @ drop i xs)"
    by (simp only: subseq_append')
  then show ?thesis
    by (simp add: splice1_def)
qed

lemma grow_ok_refl: "grow_ok q s s"
  by (simp add: grow_ok_def)

lemma grow_ok_trans: "grow_ok q s s1 \<Longrightarrow> grow_ok q s1 s2 \<Longrightarrow> grow_ok q s s2"
  unfolding grow_ok_def
  by (metis map_le_trans subseq_order.order_trans)

lemma grow_ok_weaken: "grow_ok True s s' \<Longrightarrow> grow_ok q s s'"
  by (simp add: grow_ok_def)

lemma grow_ok_cancel: "grow_ok True s (cancel this s)"
  by (cases this; cases "kind (store s (case this of Inst r \<Rightarrow> r | BasePrototype \<Rightarrow> 0))";
      cases "p_timer (store s (case this of Inst r \<Rightarrow> r | BasePrototype \<Rightarrow> 0))")
     (simp_all add: cancel_defs grow_ok_def map_le_def)

lemma grow_ok_AbstractTimer_kill: "grow_ok True s (AbstractTimer_kill this s)"
proof -
  let ?s1 = "cleanupCallback (timerFn_of this s) s"
  have a: "grow_ok True s ?s1"
    by (simp add: grow_ok_def cleanupCallback_def)
  have b: "grow_ok True ?s1 (cancel this ?s1)"
    by (rule grow_ok_cancel)
  have c: "grow_ok True (cancel this ?s1) (removeTimerFromPool this (cancel this ?s1))"
    by (simp add: grow_ok_def removeTimerFromPool_def subseq_splice1)
  have d: "grow_ok True (removeTimerFromPool this (cancel this ?s1))
             (set_timer_null this (removeTimerFromPool this (cancel this ?s1)))"
    by (cases this) (simp_all add: grow_ok_def set_timer_null_def upd_def)
  show ?thesis
    unfolding AbstractTimer_kill_def
    using a b c d by (blast intro: grow_ok_trans)
qed

lemma grow_ok_kill: "grow_ok True s (kill r s)"
proof -
  have "grow_ok True s (AbstractTimer_kill this (cancel (Inst r) s))" for this
    using grow_ok_cancel grow_ok_AbstractTimer_kill by (blast intro: grow_ok_trans)
  then show ?thesis
    by (cases "kind (store s r)")
       (simp_all add: kill_def Timer_kill_def IntervalTimer_kill_def grow_ok_AbstractTimer_kill)
qed

lemma grow_ok_pause: "grow_ok True s (pause r s)"
proof -
  have "grow_ok True (cancel (Inst r) s) (pause r s)"
    by (simp add: pause_def grow_ok_def upd_def)
  with grow_ok_cancel show ?thesis
    by (blast intro: grow_ok_trans)
qed

lemma grow_ok_restart: "grow_ok False s (restart r s)"
  by (cases "kind (store s r)"; cases "p_timer (store s r)"; cases "p_timerFn (store s r)")
     (simp_all add: grow_ok_def restart_defs cancel_defs Let_def split_def)

lemma grow_ok_do_action: "grow_ok (a \<noteq> ARestart) s (do_action a t s)"
  by (cases a)
     (simp_all add: do_action_def grow_ok_restart grow_ok_kill grow_ok_cancel grow_ok_pause)

lemma grow_ok_actions:
  "grow_ok (ARestart \<notin> set acts) s (fold (\<lambda>a. do_action a t) acts s)"
proof (induction acts arbitrary: s)
  case Nil
  show ?case
    by (simp add: grow_ok_refl)
next
  case (Cons a acts)
  have "grow_ok (ARestart \<notin> set (a # acts)) s (do_action a t s)"
    using grow_ok_do_action [of a s t] by (auto simp: grow_ok_def)
  moreover have "grow_ok (ARestart \<notin> set (a # acts)) (do_action a t s)
                   (fold (\<lambda>a. do_action a t) acts (do_action a t s))"
    using Cons.IH [of "do_action a t s"] by (auto simp: grow_ok_def)
  ultimately show ?case
    by (auto intro: grow_ok_trans)
qed

lemma grow_ok_call_user:
  "grow_ok (ARestart \<notin> set (body s u)) s (snd (call_user u this args s))"
proof (cases this)
  case None
  then show ?thesis
    by (simp add: call_user_def grow_ok_def Let_def)
next
  case (Some t)
  let ?s1 = "s\<lparr>trace := trace s @ [Call u this args (timerPool s)]\<rparr>"
  have "grow_ok (ARestart \<notin> set (body s u)) s ?s1"
    by (simp add: grow_ok_def)
  moreover have "grow_ok (ARestart \<notin> set (body s u)) ?s1
                   (fold (\<lambda>a. do_action a t) (body s u) ?s1)"
    by (rule grow_ok_actions)
  ultimately show ?thesis
    using Some by (auto simp: call_user_def Let_def intro: grow_ok_trans)
qed

lemma grow_ok_and_then:
  assumes "grow_ok q s (snd r)" and "\<And>x. grow_ok q x (snd (f x))"
  shows "grow_ok q s (snd (and_then r f))"
proof (cases r)
  case (Pair out x)
  with assms(1) have "grow_ok q s x"
    by simp
  with assms(2) [of x] Pair show ?thesis
    by (cases out) (auto simp: and_then_def intro: grow_ok_trans)
qed

lemma grow_ok_cleanup_kill: "grow_ok q x (cleanupCallback cb (kill t x))"
proof -
  have "grow_ok True (kill t x) (cleanupCallback cb (kill t x))"
    by (simp add: grow_ok_def cleanupCallback_def)
  with grow_ok_kill [of x t] have "grow_ok True x (cleanupCallback cb (kill t x))"
    by (rule grow_ok_trans)
  then show ?thesis
    by (rule grow_ok_weaken)
qed

lemma grow_ok_trigger_completion:
  "grow_ok (case cb of None \<Rightarrow> True | Some u \<Rightarrow> ARestart \<notin> set (body s u)) s
     (snd (trigger_completion sub cb t s))"
proof (cases cb)
  case None
  then show ?thesis
    by (simp add: trigger_completion_def grow_ok_kill)
next
  case (Some u)
  let ?q = "ARestart \<notin> set (body s u)"
  have k: "grow_ok True s (kill sub s)"
    by (rule grow_ok_kill)
  then have b: "body (kill sub s) = body s"
    by (simp add: grow_ok_def)
  have "grow_ok ?q (kill sub s) (snd (call_user u (Some t) [] (kill sub s)))"
    using grow_ok_call_user [of "kill sub s" u "Some t" "[]"] b by simp
  then have "grow_ok ?q (kill sub s)
          (snd (and_then (call_user u (Some t) [] (kill sub s))
             (\<lambda>s2. (Returned, cleanupCallback (RInner (TriggerCompletion sub cb)) s2))))"
    by (rule grow_ok_and_then) (simp add: grow_ok_def cleanupCallback_def)
  with grow_ok_weaken [OF k, of ?q] show ?thesis
    using Some by (auto simp: trigger_completion_def Let_def intro: grow_ok_trans)
qed

lemma grow_ok_call_fn: "grow_ok (\<not> fn_may_restart f s) s (snd (call_fn f t s))"
proof (cases f)
  case (User u)
  then show ?thesis
    using grow_ok_call_user [of s u "Some t" "[]"] by (simp add: call_fn_def)
next
  case (MultiInternal c cbf cc)
  let ?s1 = "s\<lparr>counters := (counters s)(c := (counters s c)
               \<lparr>repetitions := js_dec (repetitions (counters s c))\<rparr>)\<rparr>"
  show ?thesis
  proof (cases "0 < repetitions (counters s c)")
    case True
    have a: "grow_ok False s ?s1"
      by (simp add: grow_ok_def)
    have "grow_ok False s (snd (multi_internal c cbf cc t s))"
    proof (cases cbf)
      case None
      with True a show ?thesis
        by (simp add: multi_internal_def Let_def)
    next
      case (Some u)
      have "grow_ok False ?s1 (snd (call_user u (Some t) [totalRepetitions (counters ?s1 c)] ?s1))"
        using grow_ok_call_user [of ?s1 u "Some t"] by (auto simp: grow_ok_def)
      then have "grow_ok False ?s1
          (snd (and_then (call_user u (Some t) [totalRepetitions (counters ?s1 c)] ?s1)
             (\<lambda>s2. (Returned,
                restart t
                  (s2\<lparr>counters := (counters s2)(c := (counters s2 c)
                         \<lparr>totalRepetitions := js_inc (totalRepetitions (counters s2 c))\<rparr>)\<rparr>)))))"
      proof (rule grow_ok_and_then)
        fix x :: state
        let ?x1 = "x\<lparr>counters := (counters x)(c := (counters x c)
                      \<lparr>totalRepetitions := js_inc (totalRepetitions (counters x c))\<rparr>)\<rparr>"
        have "grow_ok False x ?x1"
          by (simp add: grow_ok_def)
        with grow_ok_restart [of ?x1 t] show "grow_ok False x (snd (Returned, restart t ?x1))"
          by (auto intro: grow_ok_trans)
      qed
      with a have "grow_ok False s
          (snd (and_then (call_user u (Some t) [totalRepetitions (counters ?s1 c)] ?s1)
             (\<lambda>s2. (Returned,
                restart t
                  (s2\<lparr>counters := (counters s2)(c := (counters s2 c)
                         \<lparr>totalRepetitions := js_inc (totalRepetitions (counters s2 c))\<rparr>)\<rparr>)))))"
        by (rule grow_ok_trans)
      with True Some show ?thesis
        by (simp add: multi_internal_def Let_def)
    qed
    with True MultiInternal show ?thesis
      by (simp add: call_fn_def)
  next
    case False
    have a: "grow_ok True s ?s1"
      by (simp add: grow_ok_def)
    have "grow_ok True ?s1 (snd (case cc of None \<Rightarrow> (Returned, ?s1)
                                 | Some d \<Rightarrow> call_user d None [] ?s1))"
      by (cases cc) (simp_all add: grow_ok_refl call_user_def grow_ok_def Let_def)
    then have "grow_ok True ?s1
        (snd (and_then (case cc of None \<Rightarrow> (Returned, ?s1) | Some d \<Rightarrow> call_user d None [] ?s1)
           (\<lambda>s2. (Returned, cleanupCallback (RFn (MultiInternal c cbf cc)) (kill t s2)))))"
      by (rule grow_ok_and_then) (simp add: grow_ok_cleanup_kill)
    with a have "grow_ok True s
        (snd (and_then (case cc of None \<Rightarrow> (Returned, ?s1) | Some d \<Rightarrow> call_user d None [] ?s1)
           (\<lambda>s2. (Returned, cleanupCallback (RFn (MultiInternal c cbf cc)) (kill t s2)))))"
      by (rule grow_ok_trans)
    with False MultiInternal show ?thesis
      by (simp add: call_fn_def multi_internal_def Let_def)
  qed
next
  case (OneShotInner cbf)
  show ?thesis
  proof (cases cbf)
    case None
    with OneShotInner show ?thesis
      by (simp add: call_fn_def oneshot_inner_def grow_ok_refl)
  next
    case (Some g)
    have "grow_ok (\<not> fn_may_restart f s) s (snd (call_inner g t s))"
    proof (cases g)
      case (UserI u)
      with OneShotInner Some show ?thesis
        using grow_ok_call_user [of s u "Some t" "[]"] by (simp add: call_inner_def)
    next
      case (TriggerCompletion sub cb)
      with OneShotInner Some show ?thesis
        using grow_ok_trigger_completion [where cb = cb and s = s and sub = sub and t = t]
        by (cases cb) (simp_all add: call_inner_def)
    qed
    then have "grow_ok (\<not> fn_may_restart f s) s
        (snd (and_then (call_inner g t s)
           (\<lambda>s1. (Returned, cleanupCallback (RFn (OneShotInner cbf)) (kill t s1)))))"
      by (rule grow_ok_and_then) (simp add: grow_ok_cleanup_kill)
    with OneShotInner Some show ?thesis
      by (simp add: call_fn_def oneshot_inner_def)
  qed
qed

lemma grow_ok_invoke_wrapper: "grow_ok (\<not> may_restart w s) s (snd (invoke_wrapper w s))"
  using grow_ok_call_fn [of _ s "timer_of w"]
  by (cases "timerCallback w") (simp_all add: invoke_wrapper_def may_restart_def grow_ok_refl)

lemma call_user_on_timer_returns: "fst (call_user u (Some t) args s) = Returned"
  by (simp add: call_user_def Let_def)

lemma fst_and_then:
  "fst (and_then r (\<lambda>x. (Returned, g x))) = fst r"
  by (cases r; cases "fst r") (simp_all add: and_then_def)

lemma call_fn_outcome:
  "fst (call_fn f t s) = (if fn_throws f s then TypeError else Returned)"
proof (cases f)
  case (User u)
  then show ?thesis
    by (simp add: call_fn_def call_user_on_timer_returns)
next
  case (MultiInternal c cbf cc)
  then show ?thesis
    by (cases cbf; cases cc)
       (simp_all add: call_fn_def multi_internal_def Let_def fst_and_then
          call_user_on_timer_returns call_user_def)
next
  case (OneShotInner cbf)
  show ?thesis
  proof (cases cbf)
    case None
    with OneShotInner show ?thesis
      by (simp add: call_fn_def oneshot_inner_def)
  next
    case (Some g)
    show ?thesis
    proof (cases g)
      case (UserI u)
      with OneShotInner Some show ?thesis
        by (simp add: call_fn_def oneshot_inner_def call_inner_def fst_and_then
            call_user_on_timer_returns)
    next
      case (TriggerCompletion sub cb)
      with OneShotInner Some show ?thesis
        by (cases cb)
           (simp_all add: call_fn_def oneshot_inner_def call_inner_def trigger_completion_def
              Let_def fst_and_then call_user_on_timer_returns)
    qed
  qed
qed

lemma invoke_wrapper_outcome:
  "fst (invoke_wrapper w s) = (if throws w s then TypeError else Returned)"
  by (cases "timerCallback w") (simp_all add: invoke_wrapper_def throws_def call_fn_outcome)

text \<open>
  C7, as the code has it. The code keeps no record that a timer was killed, and a late
  invocation of a wrapper runs the same closure as a timely one. What holds of it in the
  state after any \<open>kill\<close>, for every wrapper (so for the killed timer's own), with
  caller functions that call \<open>restart\<close>, \<open>kill\<close>, \<open>cancel\<close> and \<open>pause\<close> on their
  receiver as they like: it never registers or creates a timer, the registry afterwards
  being a subsequence of the registry before; it throws exactly when \<open>throws\<close> says
  (a callback that a closure calls without testing it is missing, or the completion
  callback of a bounded-repetition closure uses its receiver); and it schedules nothing
  (no handle is allocated, every pending entry was pending before) unless
  \<open>may_restart\<close> holds, that is unless the wrapper leads to a bounded-repetition closure
  with repetitions remaining or to a caller's function that calls \<^verbatim>\<open>this.restart()\<close>.
\<close>

theorem C7_late_invocation_effects:
  "subseq (timerPool (snd (invoke_wrapper w (kill t s)))) (timerPool (kill t s)) \<and>
   nextRef (snd (invoke_wrapper w (kill t s))) = nextRef (kill t s) \<and>
   fst (invoke_wrapper w (kill t s)) =
     (if throws w (kill t s) then TypeError else Returned) \<and>
   (\<not> may_restart w (kill t s) \<longrightarrow>
      nextHandle (snd (invoke_wrapper w (kill t s))) = nextHandle (kill t s) \<and>
      pending (snd (invoke_wrapper w (kill t s))) \<subseteq>\<^sub>m pending (kill t s))"
  using grow_ok_invoke_wrapper [of w "kill t s"] invoke_wrapper_outcome [of w "kill t s"]
  by (simp add: grow_ok_def)

theorem C7_late_invocation_witness:
  "p_timerFn (store (snd (oneShot (Some 100) (Some 7) init_state)) 5) = Some one_shot_wrapper \<and>
   \<not> may_restart one_shot_wrapper one_shot_killed \<and>
   \<not> throws one_shot_wrapper one_shot_killed \<and>
   fst (invoke_wrapper one_shot_wrapper one_shot_killed) = Returned \<and>
   subseq (timerPool (snd (invoke_wrapper one_shot_wrapper one_shot_killed))) [1, 2, 3, 4, 5] \<and>
   nextRef (snd (invoke_wrapper one_shot_wrapper one_shot_killed)) = 6 \<and>
   nextHandle (snd (invoke_wrapper one_shot_wrapper one_shot_killed)) = 5 \<and>
   pending (snd (invoke_wrapper one_shot_wrapper one_shot_killed)) \<subseteq>\<^sub>m pending one_shot_killed"
proof -
  have a: "\<not> may_restart one_shot_wrapper one_shot_killed \<and>
           \<not> throws one_shot_wrapper one_shot_killed"
    by (simp add: may_restart_def throws_def one_shot_wrapper_def one_shot_killed_def
        init_state_eq eval_defs)
  have b: "timerPool one_shot_killed = [1, 2, 3, 4, 5] \<and> nextHandle one_shot_killed = 5 \<and>
           nextRef one_shot_killed = 6 \<and>
           p_timerFn (store (snd (oneShot (Some 100) (Some 7) init_state)) 5) =
             Some one_shot_wrapper"
    by (simp add: one_shot_wrapper_def one_shot_killed_def init_state_eq eval_defs)
  show ?thesis
    using C7_late_invocation_effects [of one_shot_wrapper 5
        "snd (oneShot (Some 100) (Some 7) init_state)"] a b
    by (simp add: one_shot_killed_def)
qed

text \<open>
  C7 as stated fails. In \<open>multi_killed\<close> a bounded-repetition timer was killed with
  repetitions remaining and nothing of it is pending; a late invocation of its wrapper
  calls the caller's callback with index 0 and restarts the timer: a new timeout, handle
  5, is pending with the same wrapper, and the killed timer holds it. In
  \<open>readme_timer_killed\<close> the same happens to a plain timer whose callback calls
  \<^verbatim>\<open>this.restart()\<close>. In \<open>bare_multi_killed\<close> the late invocation throws. In
  \<open>one_shot_killed\<close> it calls the caller's callback and \<open>kill\<close> once more, which
  takes one more entry, object 1, out of the registry.
\<close>

theorem C7_late_invocation_not_harmless:
  "p_timerFn (store multi_killed 5) = Some multi_wrapper \<and>
   pending multi_killed 4 = None \<and> pending multi_killed 5 = None \<and>
   nextHandle multi_killed = 5 \<and>
   fst (invoke_wrapper multi_wrapper multi_killed) = Returned \<and>
   trace (snd (invoke_wrapper multi_wrapper multi_killed)) =
     [Call 7 (Some 5) [0] [1, 2, 3, 4, 5]] \<and>
   nextHandle (snd (invoke_wrapper multi_wrapper multi_killed)) = 6 \<and>
   pending (snd (invoke_wrapper multi_wrapper multi_killed)) 5 =
     Some \<lparr>p_mode = Timeout, p_fn = WrapperFn multi_wrapper, p_delay = Some 100\<rparr> \<and>
   p_timer (store (snd (invoke_wrapper multi_wrapper multi_killed)) 5) = Some 5 \<and>
   p_timerFn (store readme_timer_killed 5) = Some readme_wrapper \<and>
   pending readme_timer_killed 4 = None \<and> pending readme_timer_killed 5 = None \<and>
   fst (invoke_wrapper readme_wrapper readme_timer_killed) = Returned \<and>
   trace (snd (invoke_wrapper readme_wrapper readme_timer_killed)) =
     [Call 9 (Some 5) [] [1, 2, 3, 4, 5]] \<and>
   pending (snd (invoke_wrapper readme_wrapper readme_timer_killed)) 5 =
     Some \<lparr>p_mode = Timeout, p_fn = WrapperFn readme_wrapper, p_delay = Some 250\<rparr> \<and>
   p_timer (store (snd (invoke_wrapper readme_wrapper readme_timer_killed)) 5) = Some 5 \<and>
   p_timerFn (store bare_multi_killed 5) = Some bare_multi_wrapper \<and>
   fst (invoke_wrapper bare_multi_wrapper bare_multi_killed) = TypeError \<and>
   p_timerFn (store one_shot_killed 5) = Some one_shot_wrapper \<and>
   timerPool one_shot_killed = [1, 2, 3, 4, 5] \<and>
   trace (snd (invoke_wrapper one_shot_wrapper one_shot_killed)) =
     [Call 7 (Some 5) [] [1, 2, 3, 4, 5]] \<and>
   timerPool (snd (invoke_wrapper one_shot_wrapper one_shot_killed)) = [2, 3, 4, 5]"
proof -
  have a: "p_timerFn (store multi_killed 5) = Some multi_wrapper \<and>
     pending multi_killed 4 = None \<and> pending multi_killed 5 = None \<and>
     nextHandle multi_killed = 5 \<and>
     fst (invoke_wrapper multi_wrapper multi_killed) = Returned \<and>
     trace (snd (invoke_wrapper multi_wrapper multi_killed)) =
       [Call 7 (Some 5) [0] [1, 2, 3, 4, 5]] \<and>
     nextHandle (snd (invoke_wrapper multi_wrapper multi_killed)) = 6 \<and>
     pending (snd (invoke_wrapper multi_wrapper multi_killed)) 5 =
       Some \<lparr>p_mode = Timeout, p_fn = WrapperFn multi_wrapper, p_delay = Some 100\<rparr> \<and>
     p_timer (store (snd (invoke_wrapper multi_wrapper multi_killed)) 5) = Some 5"
    by (simp add: multi_killed_def multi_wrapper_def init_state_eq eval_defs)
  have b: "p_timerFn (store readme_timer_killed 5) = Some readme_wrapper \<and>
     pending readme_timer_killed 4 = None \<and> pending readme_timer_killed 5 = None \<and>
     fst (invoke_wrapper readme_wrapper readme_timer_killed) = Returned \<and>
     trace (snd (invoke_wrapper readme_wrapper readme_timer_killed)) =
       [Call 9 (Some 5) [] [1, 2, 3, 4, 5]] \<and>
     pending (snd (invoke_wrapper readme_wrapper readme_timer_killed)) 5 =
       Some \<lparr>p_mode = Timeout, p_fn = WrapperFn readme_wrapper, p_delay = Some 250\<rparr> \<and>
     p_timer (store (snd (invoke_wrapper readme_wrapper readme_timer_killed)) 5) = Some 5"
    by (simp add: readme_timer_killed_def readme_wrapper_def init_state_eq eval_defs)
  have c: "p_timerFn (store bare_multi_killed 5) = Some bare_multi_wrapper \<and>
     fst (invoke_wrapper bare_multi_wrapper bare_multi_killed) = TypeError"
    by (simp add: bare_multi_killed_def bare_multi_wrapper_def init_state_eq eval_defs)
  have d: "p_timerFn (store one_shot_killed 5) = Some one_shot_wrapper \<and>
     timerPool one_shot_killed = [1, 2, 3, 4, 5] \<and>
     trace (snd (invoke_wrapper one_shot_wrapper one_shot_killed)) =
       [Call 7 (Some 5) [] [1, 2, 3, 4, 5]] \<and>
     timerPool (snd (invoke_wrapper one_shot_wrapper one_shot_killed)) = [2, 3, 4, 5]"
    by (simp add: one_shot_killed_def one_shot_wrapper_def init_state_eq eval_defs)
  from a b c d show ?thesis
    by simp
qed

subsection \<open>The run of a bounded-repetition timer\<close>

lemma js_dec_exact: "0 < x \<Longrightarrow> x \<le> 2 ^ 53 \<Longrightarrow> js_dec x = x - 1"
  by (simp add: js_dec_def)

lemma js_inc_exact: "0 \<le> x \<Longrightarrow> x < 2 ^ 53 \<Longrightarrow> js_inc x = x + 1"
  by (simp add: js_inc_def)

lemma multi_fst: "fst (multi i N cb dn s) = nextRef s"
  by (simp add: multi_def AbstractTimer_def addTimerToPool_def Let_def split_def)

lemma multi_inv_init: "multi_inv s i N cb dn 0 (snd (multi i N (Some cb) dn s))"
  by (simp add: multi_inv_def repetition_calls_def ctor_defs restart_defs upd_def Let_def
      split_def map_le_def)

lemma multi_inv_step:
  assumes "multi_inv s i N cb dn k x" and "int k < N" and "N \<le> 2 ^ 53" and "body s cb = []"
  shows "fst (fire_current (nextRef s) x) = Returned \<and>
         multi_inv s i N cb dn (Suc k) (snd (fire_current (nextRef s) x))"
proof -
  have "js_dec (N - int k) = N - int k - 1" and "js_inc (int k) = int k + 1"
    using assms(2,3) by (simp_all add: js_dec_exact js_inc_exact)
  with assms show ?thesis
    by (simp add: multi_inv_def repetition_calls_def call_user_def trigger_completion_def
        call_inner_def oneshot_inner_def multi_internal_def call_fn_def invoke_wrapper_def
        fire_def fire_current_def and_then_def restart_defs upd_def Let_def split_def map_le_def)
qed

lemma multi_inv_final:
  assumes "multi_inv s i N cb dn k x" and "N \<le> int k"
    and "case dn of None \<Rightarrow> True | Some d \<Rightarrow> body s d = []"
  shows "fst (fire_current (nextRef s) x) = Returned \<and>
         trace (snd (fire_current (nextRef s) x)) = trace x @ completion_call dn s \<and>
         timerPool (snd (fire_current (nextRef s) x)) = drop 1 (timerPool s @ [nextRef s]) \<and>
         pending (snd (fire_current (nextRef s) x)) \<subseteq>\<^sub>m pending s"
  using assms
  by (cases dn)
     (simp_all add: multi_inv_def completion_call_def call_user_def multi_internal_def
        call_fn_def invoke_wrapper_def fire_def fire_current_def and_then_def kill_defs
        cancel_defs Let_def split_def)

lemma multi_inv_run:
  assumes "multi_inv s i N cb dn k x" and "k + m = nat N" and "N \<le> 2 ^ 53"
    and "body s cb = []" and "case dn of None \<Rightarrow> True | Some d \<Rightarrow> body s d = []"
  shows "fst (run_fires (Suc m) (nextRef s) x) = Returned \<and>
         trace (snd (run_fires (Suc m) (nextRef s) x)) =
           trace s @ repetition_calls cb (nat N) s @ completion_call dn s \<and>
         timerPool (snd (run_fires (Suc m) (nextRef s) x)) = drop 1 (timerPool s @ [nextRef s]) \<and>
         pending (snd (run_fires (Suc m) (nextRef s) x)) \<subseteq>\<^sub>m pending s"
  using assms(1,2)
proof (induction m arbitrary: k x)
  case 0
  then have "N \<le> int k"
    by simp
  from multi_inv_final [OF "0.prems"(1) this assms(5)] "0.prems"
  show ?case
    by (cases "fire_current (nextRef s) x") (auto simp: multi_inv_def and_then_def)
next
  case (Suc m)
  then have "int k < N"
    by linarith
  from multi_inv_step [OF Suc.prems(1) this assms(3,4)]
  have r: "fst (fire_current (nextRef s) x) = Returned"
    and inv: "multi_inv s i N cb dn (Suc k) (snd (fire_current (nextRef s) x))"
    by simp_all
  from Suc.prems(2) have "Suc k + m = nat N"
    by simp
  from Suc.IH [OF inv this] r show ?case
    by (cases "fire_current (nextRef s) x") (simp add: and_then_def)
qed

text \<open>
  What the code does get right, in any state \<open>s\<close>: with at most \<open>2^53\<close> repetitions,
  callbacks that leave the timer alone, and nothing else touching the timer while the
  host fires each timeout it arms, the calls are \<open>cb\<close> with the indices below \<open>N\<close> in
  order and then the completion callback once, each with the timer in the registry, and
  nothing of the timer stays pending. But the final \<open>kill\<close> takes the first entry out of
  the registry, which is the timer only where the registry of \<open>s\<close> was empty.
\<close>

lemma multi_run_calls:
  assumes "N \<le> 2 ^ 53" and "body s cb = []"
    and "case dn of None \<Rightarrow> True | Some d \<Rightarrow> body s d = []"
  shows "fst (multi_run i N cb dn s) = Returned \<and>
         trace (snd (multi_run i N cb dn s)) =
           trace s @
           map (\<lambda>j. Call cb (Some (nextRef s)) [int j] (timerPool s @ [nextRef s])) [0..<nat N] @
           (case dn of None \<Rightarrow> [] | Some d \<Rightarrow> [Call d None [] (timerPool s @ [nextRef s])]) \<and>
         timerPool (snd (multi_run i N cb dn s)) = drop 1 (timerPool s @ [nextRef s]) \<and>
         pending (snd (multi_run i N cb dn s)) \<subseteq>\<^sub>m pending s"
proof -
  have "multi_inv s i N cb dn 0 (snd (multi i N (Some cb) dn s))"
    by (rule multi_inv_init)
  moreover have "0 + nat N = nat N"
    by simp
  ultimately have
    "fst (run_fires (Suc (nat N)) (nextRef s) (snd (multi i N (Some cb) dn s))) = Returned \<and>
     trace (snd (run_fires (Suc (nat N)) (nextRef s) (snd (multi i N (Some cb) dn s)))) =
       trace s @ repetition_calls cb (nat N) s @ completion_call dn s \<and>
     timerPool (snd (run_fires (Suc (nat N)) (nextRef s) (snd (multi i N (Some cb) dn s)))) =
       drop 1 (timerPool s @ [nextRef s]) \<and>
     pending (snd (run_fires (Suc (nat N)) (nextRef s) (snd (multi i N (Some cb) dn s))))
       \<subseteq>\<^sub>m pending s"
    using assms by (rule multi_inv_run)
  then show ?thesis
    by (simp add: multi_run_def multi_fst repetition_calls_def completion_call_def)
qed

text \<open>
  C3: the claim says that the completion callback runs once, after the last repetition
  and before the timer is removed from the registry. For
  \<^verbatim>\<open>m = TimersJS.multi(100, 3, cb, done)\<close> on the freshly loaded module (\<open>cb\<close> has tag 7,
  \<open>done\<close> tag 8) the host fires the four timeouts the timer arms. The calls are as the
  claim says: \<open>cb\<close> with 0, 1 and 2, then \<open>done\<close>, each with the timer, object 5, in the
  registry. But the timer is not removed afterwards: its \<open>kill\<close> removes object 0
  (\<^verbatim>\<open>Timer.prototype\<close>, the entry at position 0), and the timer stays registered, with
  nothing pending. Nor is the completion callback held to one call: in
  \<open>multi_restarted\<close>, where \<open>restart\<close> was called twice on a timer with no repetitions,
  three timeouts are pending, the first fire clears only the last of them, and \<open>done\<close>
  runs at the first and at the second fire.
\<close>

theorem C3_multi_timer_stays_registered:
  "fst (multi (Some 100) 3 (Some 7) (Some 8) init_state) = 5 \<and>
   timerPool (snd (multi (Some 100) 3 (Some 7) (Some 8) init_state)) = [0, 1, 2, 3, 4, 5] \<and>
   fst (multi_run (Some 100) 3 7 (Some 8) init_state) = Returned \<and>
   trace (snd (multi_run (Some 100) 3 7 (Some 8) init_state)) =
     [Call 7 (Some 5) [0] [0, 1, 2, 3, 4, 5], Call 7 (Some 5) [1] [0, 1, 2, 3, 4, 5],
      Call 7 (Some 5) [2] [0, 1, 2, 3, 4, 5], Call 8 None [] [0, 1, 2, 3, 4, 5]] \<and>
   timerPool (snd (multi_run (Some 100) 3 7 (Some 8) init_state)) = [1, 2, 3, 4, 5] \<and>
   poolSize (snd (multi_run (Some 100) 3 7 (Some 8) init_state)) = 0 \<and>
   pending (snd (multi_run (Some 100) 3 7 (Some 8) init_state)) \<subseteq>\<^sub>m pending init_state \<and>
   pending multi_restarted 4 \<noteq> None \<and> pending multi_restarted 5 \<noteq> None \<and>
   pending multi_restarted 6 \<noteq> None \<and>
   trace (snd (fire 5 (snd (fire 4 multi_restarted)))) =
     [Call 8 None [] [0, 1, 2, 3, 4, 5], Call 8 None [] [1, 2, 3, 4, 5]] \<and>
   timerPool (snd (fire 5 (snd (fire 4 multi_restarted)))) = [2, 3, 4, 5]"
proof -
  have e: "pending multi_restarted 4 \<noteq> None \<and> pending multi_restarted 5 \<noteq> None \<and>
     pending multi_restarted 6 \<noteq> None \<and>
     trace (snd (fire 5 (snd (fire 4 multi_restarted)))) =
       [Call 8 None [] [0, 1, 2, 3, 4, 5], Call 8 None [] [1, 2, 3, 4, 5]] \<and>
     timerPool (snd (fire 5 (snd (fire 4 multi_restarted)))) = [2, 3, 4, 5]"
    by (simp add: multi_restarted_def init_state_eq eval_defs)
  have a: "nextRef init_state = 5 \<and> timerPool init_state = [0, 1, 2, 3, 4] \<and>
           trace init_state = [] \<and> body init_state 7 = [] \<and> body init_state 8 = []"
    by (simp add: init_state_eq init_literal_def)
  have b: "[0..<nat 3] = [0, 1, 2]"
    by (simp add: upt_rec)
  have c: "(3::int) \<le> 2 ^ 53"
    by simp
  have d: "timerPool (snd (multi (Some 100) 3 (Some 7) (Some 8) init_state)) = [0, 1, 2, 3, 4, 5]"
    by (simp add: init_state_eq eval_defs)
  show ?thesis
    using multi_run_calls [of 3 init_state 7 "Some 8" "Some 100"] a b c d e
    by (simp add: multi_fst poolSize_def)
qed

end
